theory Spec2Isabelle
  imports Main "HOL-Library.Word"
begin

unbundle bit_operations_syntax

section \<open>Pixels\<close>

type_synonym u8 = "8 word"

text \<open>
  \<^verbatim>\<open>struct RGBValue\<close>: three 8-bit channels and the flag \<^verbatim>\<open>isNull\<close>.
\<close>

record RGBValue =
  red :: u8
  green :: u8
  blue :: u8
  isNull :: bool

text \<open>The constructor \<^verbatim>\<open>RGBValue(r, g, b)\<close>.\<close>

definition RGBValue_rgb :: "u8 \<Rightarrow> u8 \<Rightarrow> u8 \<Rightarrow> RGBValue" where
  "RGBValue_rgb r g b = \<lparr>red = r, green = g, blue = b, isNull = False\<rparr>"

text \<open>
  The constructor \<^verbatim>\<open>RGBValue()\<close> sets \<^verbatim>\<open>isNull = true\<close> and assigns no channel:
  the channels keep what the memory held. That content is the argument \<open>mem\<close>.
\<close>

definition RGBValue_default :: "RGBValue \<Rightarrow> RGBValue" where
  "RGBValue_default mem = mem\<lparr>isNull := True\<rparr>"

text \<open>\<^verbatim>\<open>operator==\<close> compares the three channels and not the flag.\<close>

definition rgb_eq :: "RGBValue \<Rightarrow> RGBValue \<Rightarrow> bool" where
  "rgb_eq a b = ((red a = red b \<and> green a = green b) \<and> blue a = blue b)"

text \<open>
  \<^verbatim>\<open>hash()\<close>: the sum is computed on \<^verbatim>\<open>int\<close> (integer promotion), reduced
  modulo 64 and converted to \<^verbatim>\<open>uint8_t\<close>.
\<close>

definition hash :: "RGBValue \<Rightarrow> u8" where
  "hash p = word_of_int ((uint (red p) * 3 + uint (green p) * 5 + uint (blue p) * 7) mod 64)"

section \<open>The image object\<close>

text \<open>
  \<^verbatim>\<open>class QOI_Image\<close>: the 64-slot array \<^verbatim>\<open>index\<close>, the pixel vector and the byte
  vector. The header fields are read by neither \<^verbatim>\<open>encode\<close> nor \<^verbatim>\<open>decode\<close>
  (only by \<^verbatim>\<open>reserve\<close>) and are left out.
\<close>

record QOI_Image =
  index :: "RGBValue list"
  m_RGBBytes :: "RGBValue list"
  m_QOIBytes :: "u8 list"

text \<open>
  The constructor \<^verbatim>\<open>QOI_Image()\<close> assigns \<^verbatim>\<open>RGBValue()\<close> to each of the 64 slots;
  \<open>mem i\<close> is what slot \<open>i\<close> held before. Both vectors start empty.
\<close>

definition QOI_Image_new :: "(nat \<Rightarrow> RGBValue) \<Rightarrow> QOI_Image" where
  "QOI_Image_new mem =
     \<lparr>index = map (\<lambda>i. RGBValue_default (mem i)) [0..<64], m_RGBBytes = [], m_QOIBytes = []\<rparr>"

text \<open>
  Undefined behaviour of the source is a value of the model: an element read at or
  beyond the size of a vector, and \<^verbatim>\<open>back()\<close> on an empty vector.
\<close>

datatype fault = ReadPastEnd | BackOfEmpty

section \<open>The encoder\<close>

definition diff_ok :: "int \<Rightarrow> int \<Rightarrow> int \<Rightarrow> bool" where
  "diff_ok dr dg db = ((- 2 \<le> dr \<and> dr \<le> 1) \<and> (- 2 \<le> dg \<and> dg \<le> 1) \<and> (- 2 \<le> db \<and> db \<le> 1))"

definition luma_ok :: "int \<Rightarrow> int \<Rightarrow> int \<Rightarrow> bool" where
  "luma_ok dr dg db =
     ((- 32 \<le> dg \<and> dg \<le> 31) \<and> (- 8 \<le> dr - dg \<and> dr - dg \<le> 7) \<and> (- 8 \<le> db - dg \<and> db - dg \<le> 7))"

text \<open>The two range tests, on the differences of a pixel from \<^verbatim>\<open>prevPixel\<close>.\<close>

definition fits_diff :: "RGBValue \<Rightarrow> RGBValue \<Rightarrow> bool" where
  "fits_diff prevPixel p =
     diff_ok (uint (red p) - uint (red prevPixel)) (uint (green p) - uint (green prevPixel))
       (uint (blue p) - uint (blue prevPixel))"

definition fits_luma :: "RGBValue \<Rightarrow> RGBValue \<Rightarrow> bool" where
  "fits_luma prevPixel p =
     luma_ok (uint (red p) - uint (red prevPixel)) (uint (green p) - uint (green prevPixel))
       (uint (blue p) - uint (blue prevPixel))"

text \<open>
  Steps 2 to 4 of the loop body of \<^verbatim>\<open>encode\<close>, for the pixel \<open>p\<close> at \<^verbatim>\<open>curIdx\<close>:
  the bytes pushed, the array \<^verbatim>\<open>index\<close> and the value of \<^verbatim>\<open>prevPixel\<close> afterwards.
  The byte expressions are computed on \<^verbatim>\<open>int\<close> and converted by \<^verbatim>\<open>push_back\<close>.
\<close>

definition encode_pixel ::
  "RGBValue list \<Rightarrow> RGBValue \<Rightarrow> RGBValue \<Rightarrow> u8 list \<times> RGBValue list \<times> RGBValue" where
  "encode_pixel idx prevPixel p =
     (let dr = uint (red p) - uint (red prevPixel);
          dg = uint (green p) - uint (green prevPixel);
          db = uint (blue p) - uint (blue prevPixel)
      in if diff_ok dr dg db then
           ([word_of_int (64 + push_bit 4 (dr + 2) + push_bit 2 (dg + 2) + (db + 2))], idx, p)
         else if luma_ok dr dg db then
           ([word_of_int (128 + dg + 32), word_of_int (push_bit 4 (dr - dg + 8) + (db - dg + 8))],
            idx, p)
         else
           (let h = hash p
            in if isNull (idx ! unat h) then ([h], idx[unat h := p], p)
               else if rgb_eq (idx ! unat h) p then ([h], idx, p)
               else ([254, red p, green p, blue p], idx, p)))"

text \<open>
  The \<^verbatim>\<open>do ... while\<close> loop of step 1. \<open>runLength\<close> is a \<^verbatim>\<open>uint8_t\<close>. The loop
  condition reads \<^verbatim>\<open>m_RGBBytes[curIdx]\<close> after the increment, with no test against
  the size.
\<close>

function run_scan :: "RGBValue list \<Rightarrow> RGBValue \<Rightarrow> u8 \<Rightarrow> nat \<Rightarrow> fault + (u8 \<times> nat)" where
  "run_scan pixels prevPixel runLength curIdx =
     (let runLength' = runLength + 1; curIdx' = curIdx + 1
      in if 62 \<le> runLength' then Inr (runLength', curIdx')
         else if curIdx' < length pixels then
           (if rgb_eq (pixels ! curIdx') prevPixel
            then run_scan pixels prevPixel runLength' curIdx'
            else Inr (runLength', curIdx'))
         else Inl ReadPastEnd)"
  by pat_completeness auto
termination
  by (relation "measure (\<lambda>(pixels, prevPixel, runLength, curIdx). length pixels - curIdx)") auto

declare run_scan.simps [simp del]

lemma run_scan_advances:
  "run_scan pixels prevPixel runLength curIdx = Inr (r, c) \<Longrightarrow> curIdx < c"
proof (induction pixels prevPixel runLength curIdx rule: run_scan.induct)
  case (1 pixels prevPixel runLength curIdx)
  show ?case
  proof (cases "62 \<le> runLength + 1")
    case True
    with "1.prems" show ?thesis by (simp add: run_scan.simps [of pixels] Let_def)
  next
    case False
    note small = this
    show ?thesis
    proof (cases "curIdx + 1 < length pixels \<and> rgb_eq (pixels ! (curIdx + 1)) prevPixel")
      case True
      with small "1.prems" have "run_scan pixels prevPixel (runLength + 1) (curIdx + 1) = Inr (r, c)"
        by (simp add: run_scan.simps [of pixels prevPixel runLength] Let_def)
      with "1.IH" [OF refl refl small] True have "curIdx + 1 < c" by simp
      then show ?thesis by simp
    next
      case False
      with small "1.prems" show ?thesis
        by (auto simp: run_scan.simps [of pixels prevPixel runLength] Let_def split: if_splits)
    qed
  qed
qed

text \<open>
  The \<^verbatim>\<open>while\<close> loop of \<^verbatim>\<open>encode\<close>. After a run the loop either stops (the run
  reached the size) or goes on with steps 2 to 4 for the pixel the scan stopped at.
\<close>

function encode_loop ::
  "RGBValue list \<Rightarrow> RGBValue list \<Rightarrow> u8 list \<Rightarrow> RGBValue \<Rightarrow> nat \<Rightarrow> fault + (RGBValue list \<times> u8 list)"
  where
  "encode_loop pixels idx out prevPixel curIdx =
     (if curIdx < length pixels then
        (if 0 < curIdx \<and> rgb_eq (pixels ! curIdx) prevPixel then
           (case run_scan pixels prevPixel 0 curIdx of
              Inl e \<Rightarrow> Inl e
            | Inr (runLength, curIdx') \<Rightarrow>
                (let out' = out @ [192 + runLength]
                 in if length pixels \<le> curIdx' then Inr (idx, out')
                    else (case encode_pixel idx prevPixel (pixels ! curIdx') of
                            (bs, idx', prevPixel') \<Rightarrow>
                              encode_loop pixels idx' (out' @ bs) prevPixel' (curIdx' + 1))))
         else (case encode_pixel idx prevPixel (pixels ! curIdx) of
                 (bs, idx', prevPixel') \<Rightarrow>
                   encode_loop pixels idx' (out @ bs) prevPixel' (curIdx + 1)))
      else Inr (idx, out))"
  by pat_completeness auto
termination
proof (relation "measure (\<lambda>(pixels, idx, out, prevPixel, curIdx). length pixels - curIdx)")
  show "wf (measure (\<lambda>(pixels, idx, out, prevPixel, curIdx). length pixels - curIdx))"
    by simp
next
  fix pixels :: "RGBValue list" and idx :: "RGBValue list" and out :: "u8 list"
    and prevPixel :: RGBValue and curIdx :: nat and x2 x y xa xb ya xc yb
  assume "run_scan pixels prevPixel 0 curIdx = Inr x2" and "(x, y) = x2"
    and "\<not> length pixels \<le> y"
  then have "curIdx < y" and "y < length pixels"
    using run_scan_advances [of pixels prevPixel 0 curIdx x y] by simp_all
  then show "((pixels, xb, xa @ ya, yb, y + 1), (pixels, idx, out, prevPixel, curIdx))
      \<in> measure (\<lambda>(pixels, idx, out, prevPixel, curIdx). length pixels - curIdx)"
    by simp
next
  fix pixels :: "RGBValue list" and idx :: "RGBValue list" and out :: "u8 list"
    and prevPixel :: RGBValue and curIdx :: nat and x xa y xb ya
  assume "curIdx < length pixels"
  then show "((pixels, xa, out @ x, ya, curIdx + 1), (pixels, idx, out, prevPixel, curIdx))
      \<in> measure (\<lambda>(pixels, idx, out, prevPixel, curIdx). length pixels - curIdx)"
    by simp
qed

declare encode_loop.simps [simp del]

text \<open>
  \<^verbatim>\<open>encode\<close> on the object. \<open>mem\<close> is what the memory of the local
  \<^verbatim>\<open>RGBValue prevPixel;\<close> held. The bytes are appended to \<^verbatim>\<open>m_QOIBytes\<close>.
\<close>

definition encode :: "RGBValue \<Rightarrow> QOI_Image \<Rightarrow> fault + QOI_Image" where
  "encode mem s =
     (case encode_loop (m_RGBBytes s) (index s) (m_QOIBytes s) (RGBValue_default mem) 0 of
        Inl e \<Rightarrow> Inl e
      | Inr (idx, out) \<Rightarrow> Inr (s\<lparr>index := idx, m_QOIBytes := out\<rparr>))"

section \<open>The decoder\<close>

text \<open>
  The \<^verbatim>\<open>for\<close> loop of the run opcode: each iteration pushes \<^verbatim>\<open>m_RGBBytes.back()\<close>.
\<close>

primrec run_fill :: "RGBValue list \<Rightarrow> nat \<Rightarrow> fault + RGBValue list" where
  "run_fill out 0 = Inr out"
| "run_fill out (Suc n) = (if out = [] then Inl BackOfEmpty else run_fill (out @ [last out]) n)"

text \<open>
  \<^verbatim>\<open>back()\<close> plus the three differences, each sum computed on \<^verbatim>\<open>int\<close> and
  converted to \<^verbatim>\<open>uint8_t\<close> by the constructor.
\<close>

definition add_diff :: "RGBValue list \<Rightarrow> int \<Rightarrow> int \<Rightarrow> int \<Rightarrow> fault + RGBValue" where
  "add_diff out dr dg db =
     (if out = [] then Inl BackOfEmpty
      else Inr (RGBValue_rgb (word_of_int (uint (red (last out)) + dr))
                             (word_of_int (uint (green (last out)) + dg))
                             (word_of_int (uint (blue (last out)) + db))))"

text \<open>
  One iteration of the \<^verbatim>\<open>while\<close> loop of \<^verbatim>\<open>decode\<close>, entered with
  \<open>curIdx < length bytes\<close>: the pixel vector and \<^verbatim>\<open>curIdx\<close> afterwards. The
  payload bytes are read with no test against the size. The array \<^verbatim>\<open>index\<close> is
  only read.
\<close>

definition decode_step ::
  "u8 list \<Rightarrow> RGBValue list \<Rightarrow> RGBValue list \<Rightarrow> nat \<Rightarrow> fault + (RGBValue list \<times> nat)" where
  "decode_step bytes idx out curIdx =
     (let curByte = bytes ! curIdx; cur1 = curIdx + 1
      in if curByte = 254 then
           (if cur1 + 2 < length bytes then
              Inr (out @ [RGBValue_rgb (bytes ! cur1) (bytes ! (cur1 + 1)) (bytes ! (cur1 + 2))],
                   cur1 + 3)
            else Inl ReadPastEnd)
         else if drop_bit 6 curByte = 0 then Inr (out @ [idx ! unat curByte], cur1)
         else if drop_bit 6 curByte = 1 then
           (let dr = uint (drop_bit 4 curByte AND 3) - 2;
                dg = uint (drop_bit 2 curByte AND 3) - 2;
                db = uint (curByte AND 3) - 2
            in case add_diff out dr dg db of
                 Inl e \<Rightarrow> Inl e
               | Inr pixel \<Rightarrow> Inr (out @ [pixel], cur1))
         else if drop_bit 6 curByte = 2 then
           (if cur1 < length bytes then
              (let b2 = bytes ! cur1;
                   dg = uint (curByte AND 63) - 32;
                   dr_dg = uint (drop_bit 4 b2 AND 15) - 8;
                   db_dg = uint (b2 AND 15) - 8;
                   dr = dr_dg + dg;
                   db = db_dg + dg
               in case add_diff out dr dg db of
                    Inl e \<Rightarrow> Inl e
                  | Inr pixel \<Rightarrow> Inr (out @ [pixel], cur1 + 1))
            else Inl ReadPastEnd)
         else
           (let run = curByte AND 63
            in case run_fill out (unat run) of
                 Inl e \<Rightarrow> Inl e
               | Inr out' \<Rightarrow> Inr (out', cur1)))"

lemma decode_step_advances:
  "decode_step bytes idx out curIdx = Inr (out', c) \<Longrightarrow> curIdx < c"
  by (auto simp: decode_step_def Let_def split: if_splits sum.splits)

function decode_loop ::
  "u8 list \<Rightarrow> RGBValue list \<Rightarrow> RGBValue list \<Rightarrow> nat \<Rightarrow> fault + RGBValue list" where
  "decode_loop bytes idx out curIdx =
     (if curIdx < length bytes then
        (case decode_step bytes idx out curIdx of
           Inl e \<Rightarrow> Inl e
         | Inr (out', curIdx') \<Rightarrow> decode_loop bytes idx out' curIdx')
      else Inr out)"
  by pat_completeness auto
termination
proof (relation "measure (\<lambda>(bytes, idx, out, curIdx). length bytes - curIdx)")
  show "wf (measure (\<lambda>(bytes, idx, out, curIdx). length bytes - curIdx))"
    by simp
next
  fix bytes :: "u8 list" and idx :: "RGBValue list" and out :: "RGBValue list"
    and curIdx :: nat and x2 x y
  assume "curIdx < length bytes" and "decode_step bytes idx out curIdx = Inr x2"
    and "(x, y) = x2"
  then have "curIdx < y"
    using decode_step_advances [of bytes idx out curIdx x y] by simp
  with \<open>curIdx < length bytes\<close>
  show "((bytes, idx, x, y), (bytes, idx, out, curIdx))
      \<in> measure (\<lambda>(bytes, idx, out, curIdx). length bytes - curIdx)"
    by simp
qed

declare decode_loop.simps [simp del]

text \<open>
  \<^verbatim>\<open>decode\<close> on the object: the pixel vector is cleared and refilled from
  \<^verbatim>\<open>m_QOIBytes\<close>, with the array \<^verbatim>\<open>index\<close> as the object holds it.
\<close>

definition decode :: "QOI_Image \<Rightarrow> fault + QOI_Image" where
  "decode s =
     (case decode_loop (m_QOIBytes s) (index s) [] 0 of
        Inl e \<Rightarrow> Inl e
      | Inr out \<Rightarrow> Inr (s\<lparr>m_RGBBytes := out\<rparr>))"

text \<open>
  \<^verbatim>\<open>main\<close> runs \<^verbatim>\<open>encode\<close> and then \<^verbatim>\<open>decode\<close> on the same object (the bytes
  are written to a file and read back in between), so the decoder reads the array
  \<^verbatim>\<open>index\<close> as the encoder left it.
\<close>

definition encode_then_decode :: "RGBValue \<Rightarrow> QOI_Image \<Rightarrow> fault + RGBValue list" where
  "encode_then_decode mem s =
     (case encode mem s of
        Inl e \<Rightarrow> Inl e
      | Inr s' \<Rightarrow> (case decode s' of Inl e \<Rightarrow> Inl e | Inr s'' \<Rightarrow> Inr (m_RGBBytes s'')))"

section \<open>Helper lemmas\<close>

lemma run_fill_replicate: "out \<noteq> [] \<Longrightarrow> run_fill out n = Inr (out @ replicate n (last out))"
  by (induction n arbitrary: out) (auto simp: replicate_app_Cons_same)

lemma runLength_succ:
  assumes "unat (r :: u8) + Suc n \<le> 61"
  shows "\<not> 62 \<le> r + 1" and "unat (r + 1) = unat r + 1"
proof -
  from assms have "unat r < 255" by simp
  then show "unat (r + 1) = unat r + 1"
    by (simp add: unat_word_ariths)
  with assms show "\<not> 62 \<le> r + 1"
    by (simp add: word_le_nat_alt)
qed

lemma run_scan_counts:
  "unat r + L \<le> 61 \<Longrightarrow> 1 \<le> L \<Longrightarrow> cur + L < length px \<Longrightarrow>
   (\<forall>k. 1 \<le> k \<and> k < L \<longrightarrow> rgb_eq (px ! (cur + k)) prev) \<Longrightarrow>
   \<not> rgb_eq (px ! (cur + L)) prev \<Longrightarrow>
   run_scan px prev r cur = Inr (r + of_nat L, cur + L)"
proof (induction L arbitrary: r cur)
  case 0
  from "0.prems"(2) show ?case by simp
next
  case (Suc L)
  from Suc.prems(1) have small: "\<not> 62 \<le> r + 1" and un: "unat (r + 1) = unat r + 1"
    by (rule runLength_succ)+
  show ?case
  proof (cases "L = 0")
    case True
    with Suc.prems small show ?thesis
      by (subst run_scan.simps) (simp add: Let_def)
  next
    case False
    with Suc.prems have eq: "rgb_eq (px ! (cur + 1)) prev" and lt: "cur + 1 < length px"
      by auto
    have "run_scan px prev (r + 1) (cur + 1) = Inr (r + 1 + of_nat L, cur + 1 + L)"
    proof (rule Suc.IH)
      show "unat (r + 1) + L \<le> 61" using Suc.prems(1) un by simp
      show "1 \<le> L" using False by simp
      show "cur + 1 + L < length px" using Suc.prems(3) by simp
      show "\<forall>k. 1 \<le> k \<and> k < L \<longrightarrow> rgb_eq (px ! (cur + 1 + k)) prev"
      proof (intro allI impI)
        fix k assume "1 \<le> k \<and> k < L"
        then have "1 \<le> Suc k \<and> Suc k < Suc L" by simp
        with Suc.prems(4) have "rgb_eq (px ! (cur + Suc k)) prev" by blast
        then show "rgb_eq (px ! (cur + 1 + k)) prev" by simp
      qed
      show "\<not> rgb_eq (px ! (cur + 1 + L)) prev" using Suc.prems(5) by simp
    qed
    with small eq lt show ?thesis
      by (subst run_scan.simps) (simp add: Let_def add.assoc add.commute)
  qed
qed

lemma run_scan_to_end:
  "n = length px - cur \<Longrightarrow> cur < length px \<Longrightarrow> unat r + n < 62 \<Longrightarrow>
   (\<forall>k. cur < k \<and> k < length px \<longrightarrow> rgb_eq (px ! k) prev) \<Longrightarrow>
   run_scan px prev r cur = Inl ReadPastEnd"
proof (induction n arbitrary: r cur)
  case 0
  from "0.prems"(1,2) show ?case by simp
next
  case (Suc n)
  from Suc.prems(3) have "unat r + Suc n \<le> 61" by simp
  then have small: "\<not> 62 \<le> r + 1" and un: "unat (r + 1) = unat r + 1"
    by (rule runLength_succ)+
  show ?case
  proof (cases "cur + 1 < length px")
    case True
    with Suc.prems(4) have eq: "rgb_eq (px ! (cur + 1)) prev" by simp
    have "run_scan px prev (r + 1) (cur + 1) = Inl ReadPastEnd"
    proof (rule Suc.IH)
      show "n = length px - (cur + 1)" using Suc.prems(1) by simp
      show "cur + 1 < length px" by (rule True)
      show "unat (r + 1) + n < 62" using Suc.prems(3) un by simp
      show "\<forall>k. cur + 1 < k \<and> k < length px \<longrightarrow> rgb_eq (px ! k) prev"
        using Suc.prems(4) by simp
    qed
    with small eq True show ?thesis
      by (subst run_scan.simps) (simp add: Let_def)
  next
    case False
    with small show ?thesis
      by (subst run_scan.simps) (simp add: Let_def)
  qed
qed

lemma and_63: "(x :: u8) AND 63 = take_bit 6 x"
proof -
  have "(63 :: u8) = mask 6" by (simp add: mask_eq_exp_minus_1)
  then show ?thesis by (simp add: take_bit_eq_mask)
qed

lemma run_byte_props:
  assumes "L < 62"
  shows "drop_bit 6 (192 + of_nat L :: u8) = 3 \<and> (192 + of_nat L :: u8) AND 63 = of_nat L
     \<and> (192 + of_nat L :: u8) \<noteq> 254"
proof -
  have u: "unat (192 + of_nat L :: u8) = 192 + L"
    using assms by (simp add: unat_word_ariths unat_of_nat)
  have ul: "unat (of_nat L :: u8) = L"
    using assms by (simp add: unat_of_nat)
  have d: "(192 + L) div 64 = 3" using assms by (intro div_nat_eqI) simp_all
  have "(64 * 3 + L) mod 64 = L" using assms by (simp only: mod_mult_self4) simp
  then have m: "(192 + L) mod 64 = L" by simp
  have "unat (drop_bit 6 (192 + of_nat L :: u8)) = unat (3 :: u8)"
    by (simp add: unat_drop_bit_eq) (simp add: u drop_bit_eq_div d)
  then have a: "drop_bit 6 (192 + of_nat L :: u8) = 3"
    by (simp only: word_unat_eq_iff)
  have "unat (take_bit 6 (192 + of_nat L :: u8)) = unat (of_nat L :: u8)"
    by (simp add: unsigned_take_bit_eq) (simp add: u take_bit_eq_mod m ul)
  then have b: "(192 + of_nat L :: u8) AND 63 = of_nat L"
    by (simp only: word_unat_eq_iff and_63)
  have "unat (192 + of_nat L :: u8) \<noteq> unat (254 :: u8)"
    using assms by (simp add: u)
  then have c: "(192 + of_nat L :: u8) \<noteq> 254"
    by (simp only: word_unat_eq_iff not_False_eq_True)
  from a b c show ?thesis by simp
qed

lemma hash_lt: "hash p < 64"
  unfolding hash_def
  by (simp add: word_less_alt uint_word_of_int)

lemma hash_tag: "drop_bit 6 (hash p) = 0"
proof -
  have "unat (hash p) < 2 ^ 6" using hash_lt [of p] by (simp add: word_less_nat_alt)
  then show ?thesis
    by (simp add: drop_bit_eq_div unat_div_distrib word_eq_iff_unsigned [where ?'a = nat] unat_drop_bit_eq)
qed

lemma tag_of_int:
  assumes "64 * t \<le> v" and "v < 64 * t + 64" and "0 \<le> t" and "t < 4"
  shows "drop_bit 6 (word_of_int v :: u8) = word_of_int t"
proof -
  from assms have range: "0 \<le> v" "v < 256" by simp_all
  then have u: "uint (word_of_int v :: u8) = v"
    by (simp add: uint_word_of_int take_bit_eq_mod)
  from assms(1,2) have d: "v div 64 = t"
    by (intro int_div_pos_eq [where r = "v - 64 * t"]) simp_all
  from assms(3,4) have ut: "uint (word_of_int t :: u8) = t"
    by (simp add: uint_word_of_int take_bit_eq_mod)
  from range have m: "v mod 256 = v" by simp
  have "uint (drop_bit 6 (word_of_int v :: u8)) = uint (word_of_int t :: u8)"
    by (simp add: unsigned_drop_bit_eq) (simp add: u m drop_bit_eq_div d ut take_bit_eq_mod)
  then show ?thesis by (simp only: word_uint_eq_iff)
qed

lemma diff_byte_tag:
  assumes "diff_ok dr dg db"
  shows "drop_bit 6 (word_of_int (64 + push_bit 4 (dr + 2) + push_bit 2 (dg + 2) + (db + 2)) :: u8) = 1"
proof -
  from assms have "64 * 1 \<le> 64 + push_bit 4 (dr + 2) + push_bit 2 (dg + 2) + (db + 2)"
    and "64 + push_bit 4 (dr + 2) + push_bit 2 (dg + 2) + (db + 2) < 64 * 1 + 64"
    by (simp_all add: diff_ok_def push_bit_eq_mult)
  then have "drop_bit 6 (word_of_int (64 + push_bit 4 (dr + 2) + push_bit 2 (dg + 2) + (db + 2)) :: u8)
      = word_of_int 1"
    by (rule tag_of_int) simp_all
  then show ?thesis by simp
qed

lemma luma_byte_tag:
  assumes "luma_ok dr dg db"
  shows "drop_bit 6 (word_of_int (128 + dg + 32) :: u8) = 2"
proof -
  from assms have "64 * 2 \<le> 128 + dg + 32" and "128 + dg + 32 < 64 * 2 + 64"
    by (simp_all add: luma_ok_def)
  then have "drop_bit 6 (word_of_int (128 + dg + 32) :: u8) = word_of_int 2"
    by (rule tag_of_int) simp_all
  then show ?thesis by simp
qed

lemma rgb_eq_fits_diff: "rgb_eq p prevPixel \<Longrightarrow> fits_diff prevPixel p"
  by (simp add: rgb_eq_def fits_diff_def diff_ok_def)

lemma encode_pixel_diff:
  "fits_diff prevPixel p \<Longrightarrow>
   encode_pixel idx prevPixel p =
     ([word_of_int (64 + push_bit 4 (uint (red p) - uint (red prevPixel) + 2)
         + push_bit 2 (uint (green p) - uint (green prevPixel) + 2)
         + (uint (blue p) - uint (blue prevPixel) + 2))], idx, p)"
  by (simp add: encode_pixel_def fits_diff_def Let_def)

lemma encode_pixel_luma:
  "\<not> fits_diff prevPixel p \<Longrightarrow> fits_luma prevPixel p \<Longrightarrow>
   encode_pixel idx prevPixel p =
     ([word_of_int (128 + (uint (green p) - uint (green prevPixel)) + 32),
       word_of_int (push_bit 4 (uint (red p) - uint (red prevPixel)
           - (uint (green p) - uint (green prevPixel)) + 8)
         + (uint (blue p) - uint (blue prevPixel) - (uint (green p) - uint (green prevPixel)) + 8))],
      idx, p)"
  by (simp add: encode_pixel_def fits_diff_def fits_luma_def Let_def)

lemma encode_pixel_cache:
  "\<not> fits_diff prevPixel p \<Longrightarrow> \<not> fits_luma prevPixel p \<Longrightarrow>
   encode_pixel idx prevPixel p =
     (if isNull (idx ! unat (hash p)) then ([hash p], idx[unat (hash p) := p], p)
      else if rgb_eq (idx ! unat (hash p)) p then ([hash p], idx, p)
      else ([254, red p, green p, blue p], idx, p))"
  by (simp add: encode_pixel_def fits_diff_def fits_luma_def Let_def)

lemma encode_loop_no_run:
  "curIdx < length pixels \<Longrightarrow> \<not> (0 < curIdx \<and> rgb_eq (pixels ! curIdx) prevPixel) \<Longrightarrow>
   encode_loop pixels idx out prevPixel curIdx =
     (case encode_pixel idx prevPixel (pixels ! curIdx) of
        (bs, idx', prevPixel') \<Rightarrow> encode_loop pixels idx' (out @ bs) prevPixel' (curIdx + 1))"
  by (subst encode_loop.simps) auto

lemma run_scan_run:
  assumes "1 \<le> L" and "L \<le> 61" and "curIdx + L < length pixels"
    and "\<forall>k<L. rgb_eq (pixels ! (curIdx + k)) prevPixel"
    and "\<not> rgb_eq (pixels ! (curIdx + L)) prevPixel"
  shows "run_scan pixels prevPixel 0 curIdx = Inr (of_nat L, curIdx + L)"
proof -
  have "run_scan pixels prevPixel 0 curIdx = Inr (0 + of_nat L, curIdx + L)"
  proof (rule run_scan_counts)
    show "unat (0 :: u8) + L \<le> 61" using assms(2) by simp
    show "1 \<le> L" by (rule assms(1))
    show "curIdx + L < length pixels" by (rule assms(3))
    show "\<forall>k. 1 \<le> k \<and> k < L \<longrightarrow> rgb_eq (pixels ! (curIdx + k)) prevPixel"
      using assms(4) by simp
    show "\<not> rgb_eq (pixels ! (curIdx + L)) prevPixel" by (rule assms(5))
  qed
  then show ?thesis by simp
qed

lemma encode_loop_run:
  assumes "0 < curIdx" and "1 \<le> L" and "L \<le> 61" and "curIdx + L < length pixels"
    and "\<forall>k<L. rgb_eq (pixels ! (curIdx + k)) prevPixel"
    and "\<not> rgb_eq (pixels ! (curIdx + L)) prevPixel"
  shows "encode_loop pixels idx out prevPixel curIdx =
     (case encode_pixel idx prevPixel (pixels ! (curIdx + L)) of
        (bs, idx', prevPixel') \<Rightarrow>
          encode_loop pixels idx' ((out @ [192 + of_nat L]) @ bs) prevPixel' (curIdx + L + 1))"
proof -
  note scan = run_scan_run [OF assms(2-6)]
  from assms(2) have "0 < L" by simp
  with assms(5) have "rgb_eq (pixels ! (curIdx + 0)) prevPixel" by blast
  then have first: "rgb_eq (pixels ! curIdx) prevPixel" by simp
  from assms(4) have here: "curIdx < length pixels" by simp
  show ?thesis
    using assms(1,4) first here scan
    by (subst encode_loop.simps) (simp add: Let_def)
qed

lemma encode_pixel_prev: "snd (snd (encode_pixel idx prevPixel p)) = p"
  by (simp add: encode_pixel_def Let_def)

section \<open>The claims\<close>

subsection \<open>C1: round trip\<close>

text \<open>
  Claim C1: for every pixel sequence \<open>P\<close>, decoding the encoder's output yields \<open>P\<close>.

  The image: 63 pixels (200,100,50), then (201,101,51), (202,102,52), (203,103,53). The
  scan counts the 62 repeats and pushes \<open>0xC0 + 62 = 0xFE\<close>, the byte of the literal
  opcode; the three delta bytes \<open>7F\<close> follow. The decoder, on the same object, reads
  \<open>FE 7F 7F 7F\<close> as the literal pixel (127,127,127): 2 pixels come back for 66.
\<close>

theorem roundtrip_fails_on_run_of_62:
  "map_sum id m_QOIBytes
     (encode (RGBValue_rgb 0 0 0)
        ((QOI_Image_new (\<lambda>i. RGBValue_rgb 0 0 0))
           \<lparr>m_RGBBytes := replicate 63 (RGBValue_rgb 200 100 50)
              @ [RGBValue_rgb 201 101 51, RGBValue_rgb 202 102 52, RGBValue_rgb 203 103 53]\<rparr>))
   = Inr [42, 254, 127, 127, 127]
   \<and> encode_then_decode (RGBValue_rgb 0 0 0)
       ((QOI_Image_new (\<lambda>i. RGBValue_rgb 0 0 0))
          \<lparr>m_RGBBytes := replicate 63 (RGBValue_rgb 200 100 50)
             @ [RGBValue_rgb 201 101 51, RGBValue_rgb 202 102 52, RGBValue_rgb 203 103 53]\<rparr>)
     = Inr [RGBValue_rgb 200 100 50, RGBValue_rgb 127 127 127]"
  by code_simp

subsection \<open>C2: the run opcode\<close>

text \<open>
  Claim C2: for a run of \<open>L\<close> identical pixels, \<open>1 \<le> L \<le> 62\<close>, the encoder emits one
  run byte with tag 11 and payload \<open>L - 1\<close>, so the byte is never \<open>0xFE\<close>.

  The source pushes \<^verbatim>\<open>0b11000000 + runLength\<close>: the payload is the run length
  itself. For the pixels \<open>A, A, B\<close> the run of length 1 is the byte \<open>0xC1\<close>, with payload
  1. A scan that counts 62 gives \<open>0xC0 + 62 = 0xFE\<close>.
\<close>

theorem run_payload_counterexample:
  "map_sum id m_QOIBytes
     (encode (RGBValue_rgb 0 0 0)
        ((QOI_Image_new (\<lambda>i. RGBValue_rgb 0 0 0))
           \<lparr>m_RGBBytes := [RGBValue_rgb 200 100 50, RGBValue_rgb 200 100 50,
                           RGBValue_rgb 201 101 51]\<rparr>))
   = Inr [42, 193, 127]
   \<and> (193 :: u8) AND 63 = 1
   \<and> run_scan (replicate 64 (RGBValue_rgb 200 100 50)) (RGBValue_rgb 200 100 50) 0 1
       = Inr (62, 63)
   \<and> 192 + (62 :: u8) = 254"
  by code_simp

text \<open>
  C2 as the code has it: a run of \<open>L\<close> pixels equal to \<^verbatim>\<open>prevPixel\<close>, with
  \<open>1 \<le> L \<le> 61\<close> and a different pixel after it, is counted as \<open>L\<close> by the scan; the
  loop appends the single byte \<open>0xC0 + L\<close> and goes on with the pixel after the run.
  That byte has tag 11, payload \<open>L\<close>, and is not \<open>0xFE\<close>.
\<close>

theorem encode_run_opcode_unbiased:
  assumes "0 < curIdx" and "1 \<le> L" and "L \<le> 61" and "curIdx + L < length pixels"
    and "\<forall>k<L. rgb_eq (pixels ! (curIdx + k)) prevPixel"
    and "\<not> rgb_eq (pixels ! (curIdx + L)) prevPixel"
  shows "run_scan pixels prevPixel 0 curIdx = Inr (of_nat L, curIdx + L)
     \<and> encode_loop pixels idx out prevPixel curIdx =
         (case encode_pixel idx prevPixel (pixels ! (curIdx + L)) of
            (bs, idx', prevPixel') \<Rightarrow>
              encode_loop pixels idx' ((out @ [192 + of_nat L]) @ bs) prevPixel' (curIdx + L + 1))
     \<and> drop_bit 6 (192 + of_nat L :: u8) = 3
     \<and> (192 + of_nat L :: u8) AND 63 = of_nat L
     \<and> (192 + of_nat L :: u8) \<noteq> 254"
proof -
  note scan = run_scan_run [OF assms(2-6)]
  note loop = encode_loop_run [OF assms, of idx out]
  from assms(3) have "L < 62" by simp
  from run_byte_props [OF this] scan loop show ?thesis by simp
qed

theorem encode_run_opcode_unbiased_witness:
  "encode_loop [RGBValue_rgb 200 100 50, RGBValue_rgb 200 100 50, RGBValue_rgb 201 101 51]
     ((index (QOI_Image_new (\<lambda>i. RGBValue_rgb 0 0 0)))[42 := RGBValue_rgb 200 100 50])
     [42] (RGBValue_rgb 200 100 50) 1
   = Inr ((index (QOI_Image_new (\<lambda>i. RGBValue_rgb 0 0 0)))[42 := RGBValue_rgb 200 100 50],
          [42, 193, 127])
   \<and> drop_bit 6 (193 :: u8) = 3 \<and> (193 :: u8) AND 63 = 1 \<and> (193 :: u8) \<noteq> 254"
proof -
  let ?A = "RGBValue_rgb 200 100 50"
  let ?B = "RGBValue_rgb 201 101 51"
  let ?px = "[?A, ?A, ?B]"
  let ?idx = "(index (QOI_Image_new (\<lambda>i. RGBValue_rgb 0 0 0)))[42 := ?A]"
  have h1: "0 < (1 :: nat)" and h2: "1 \<le> (1 :: nat)" and h3: "(1 :: nat) \<le> 61"
    and h4: "1 + 1 < length ?px"
    by simp_all
  have h5: "\<forall>k<1. rgb_eq (?px ! (1 + k)) ?A" by (simp add: rgb_eq_def)
  have h6: "\<not> rgb_eq (?px ! (1 + 1)) ?A" by (simp add: rgb_eq_def RGBValue_rgb_def)
  note t = encode_run_opcode_unbiased [of 1 1 ?px ?A ?idx "[42]", OF h1 h2 h3 h4 h5 h6]
  have e: "encode_pixel ?idx ?A (?px ! (1 + 1)) = ([127], ?idx, ?B)" by code_simp
  have l: "encode_loop ?px ?idx [42, 193, 127] ?B (Suc (Suc (Suc 0))) = Inr (?idx, [42, 193, 127])"
    by code_simp
  from t e l show ?thesis by simp
qed

subsection \<open>C3: a pixel whose cache slot is absent\<close>

text \<open>
  Claim C3: a pixel that fails the run, delta and luma checks and whose slot
  \<open>h = hash(pixel)\<close> is absent is stored into slot \<open>h\<close> without an index opcode and is
  emitted as the literal \<open>0xFE r g b\<close>; an index opcode is emitted only when the slot is
  present and equal to the pixel.

  In the source the branch \<^verbatim>\<open>index[hash].isNull\<close> stores the pixel and pushes
  \<^verbatim>\<open>hash\<close>: the first pixel (200,100,50) of an image, with all slots absent, is
  emitted as the single byte 42, its hash.
\<close>

theorem cache_miss_counterexample:
  "isNull (index (QOI_Image_new (\<lambda>i. RGBValue_rgb 0 0 0))
      ! unat (hash (RGBValue_rgb 200 100 50)))
   \<and> \<not> fits_diff (RGBValue_default (RGBValue_rgb 0 0 0)) (RGBValue_rgb 200 100 50)
   \<and> \<not> fits_luma (RGBValue_default (RGBValue_rgb 0 0 0)) (RGBValue_rgb 200 100 50)
   \<and> map_sum id m_QOIBytes
       (encode (RGBValue_rgb 0 0 0)
          ((QOI_Image_new (\<lambda>i. RGBValue_rgb 0 0 0))\<lparr>m_RGBBytes := [RGBValue_rgb 200 100 50]\<rparr>))
     = Inr [hash (RGBValue_rgb 200 100 50)]
   \<and> hash (RGBValue_rgb 200 100 50) = 42"
  by code_simp

text \<open>
  C3 as the code has it: for a pixel that fails the delta and luma tests (so it differs
  from \<^verbatim>\<open>prevPixel\<close> and starts no run), the loop appends the one-byte index opcode
  \<open>hash p\<close> (tag 00) when the slot is absent, storing the pixel into the slot, and also
  when the slot holds an equal pixel; it appends the literal \<open>0xFE r g b\<close> only when the
  slot holds a different pixel.
\<close>

theorem encode_cache_branch:
  assumes "curIdx < length pixels"
    and "\<not> fits_diff prevPixel (pixels ! curIdx)"
    and "\<not> fits_luma prevPixel (pixels ! curIdx)"
  shows "encode_loop pixels idx out prevPixel curIdx =
       (if isNull (idx ! unat (hash (pixels ! curIdx))) then
          encode_loop pixels (idx[unat (hash (pixels ! curIdx)) := pixels ! curIdx])
            (out @ [hash (pixels ! curIdx)]) (pixels ! curIdx) (curIdx + 1)
        else if rgb_eq (idx ! unat (hash (pixels ! curIdx))) (pixels ! curIdx) then
          encode_loop pixels idx (out @ [hash (pixels ! curIdx)]) (pixels ! curIdx) (curIdx + 1)
        else
          encode_loop pixels idx
            (out @ [254, red (pixels ! curIdx), green (pixels ! curIdx), blue (pixels ! curIdx)])
            (pixels ! curIdx) (curIdx + 1))
     \<and> drop_bit 6 (hash (pixels ! curIdx)) = 0
     \<and> hash (pixels ! curIdx) \<noteq> 254"
proof -
  from assms(2) have "\<not> rgb_eq (pixels ! curIdx) prevPixel"
    using rgb_eq_fits_diff by blast
  then have norun: "\<not> (0 < curIdx \<and> rgb_eq (pixels ! curIdx) prevPixel)" by simp
  have "hash (pixels ! curIdx) < 64" by (rule hash_lt)
  then have ne: "hash (pixels ! curIdx) \<noteq> 254" by auto
  show ?thesis
    using ne hash_tag [of "pixels ! curIdx"]
    by (simp add: encode_loop_no_run [OF assms(1) norun] encode_pixel_cache [OF assms(2,3)])
qed

theorem encode_cache_branch_witness:
  "encode_loop [RGBValue_rgb 200 100 50] (index (QOI_Image_new (\<lambda>i. RGBValue_rgb 0 0 0))) []
     (RGBValue_default (RGBValue_rgb 0 0 0)) 0
   = Inr ((index (QOI_Image_new (\<lambda>i. RGBValue_rgb 0 0 0)))[42 := RGBValue_rgb 200 100 50], [42])
   \<and> drop_bit 6 (42 :: u8) = 0"
proof -
  let ?A = "RGBValue_rgb 200 100 50"
  let ?z = "RGBValue_default (RGBValue_rgb 0 0 0)"
  let ?idx = "index (QOI_Image_new (\<lambda>i. RGBValue_rgb 0 0 0))"
  have h1: "0 < length [?A]" by simp
  have h2: "\<not> fits_diff ?z ([?A] ! 0)" by code_simp
  have h3: "\<not> fits_luma ?z ([?A] ! 0)" by code_simp
  note t = encode_cache_branch [of 0 "[?A]" ?z ?idx "[]", OF h1 h2 h3]
  have h: "hash ?A = 42" by code_simp
  have n: "isNull (?idx ! 42)" by code_simp
  have l: "encode_loop [?A] (?idx[42 := ?A]) [42] ?A (Suc 0) = Inr (?idx[42 := ?A], [42])"
    by code_simp
  from t h n l show ?thesis by simp
qed

subsection \<open>C4: the decoder and the cache\<close>

text \<open>
  Claim C4: the decoder inserts every pixel it produces into a cache of its own, as the
  encoder does, so that after encoding and independently decoding a stream the two
  caches agree on all 64 slots.

  In the source \<^verbatim>\<open>decode\<close> never assigns \<^verbatim>\<open>index\<close>. Encoding the one pixel
  (200,100,50) fills slot 42 and gives the stream \<open>2A\<close>; a new object that decodes
  \<open>2A\<close> still has slot 42 absent afterwards.
\<close>

theorem cache_symmetry_counterexample:
  "map_sum id (\<lambda>s. (m_QOIBytes s, isNull (index s ! 42)))
     (encode (RGBValue_rgb 0 0 0)
        ((QOI_Image_new (\<lambda>i. RGBValue_rgb 0 0 0))\<lparr>m_RGBBytes := [RGBValue_rgb 200 100 50]\<rparr>))
   = Inr ([42], False)
   \<and> map_sum id (\<lambda>s. isNull (index s ! 42))
       (decode ((QOI_Image_new (\<lambda>i. RGBValue_rgb 0 0 0))\<lparr>m_QOIBytes := [42]\<rparr>))
     = Inr True"
  by code_simp

text \<open>
  C4 as the code has it: a decode pass leaves the array \<^verbatim>\<open>index\<close> of the object as it
  found it, in every slot. The decoder has no cache of its own: it reads the one the
  object holds, which after \<^verbatim>\<open>encode\<close> on the same object is the encoder's.
\<close>

theorem decode_keeps_index:
  assumes "decode s = Inr s'"
  shows "index s' = index s"
  using assms by (auto simp: decode_def split: sum.splits)

theorem decode_keeps_index_witness:
  "decode ((QOI_Image_new (\<lambda>i. RGBValue_rgb 0 0 0))\<lparr>m_QOIBytes := [254, 10, 20, 30]\<rparr>)
   = Inr ((QOI_Image_new (\<lambda>i. RGBValue_rgb 0 0 0))
            \<lparr>m_QOIBytes := [254, 10, 20, 30], m_RGBBytes := [RGBValue_rgb 10 20 30]\<rparr>)
   \<and> index ((QOI_Image_new (\<lambda>i. RGBValue_rgb 0 0 0))
            \<lparr>m_QOIBytes := [254, 10, 20, 30], m_RGBBytes := [RGBValue_rgb 10 20 30]\<rparr>)
     = index ((QOI_Image_new (\<lambda>i. RGBValue_rgb 0 0 0))\<lparr>m_QOIBytes := [254, 10, 20, 30]\<rparr>)"
proof -
  have d: "decode ((QOI_Image_new (\<lambda>i. RGBValue_rgb 0 0 0))\<lparr>m_QOIBytes := [254, 10, 20, 30]\<rparr>)
     = Inr ((QOI_Image_new (\<lambda>i. RGBValue_rgb 0 0 0))
            \<lparr>m_QOIBytes := [254, 10, 20, 30], m_RGBBytes := [RGBValue_rgb 10 20 30]\<rparr>)"
    by code_simp
  from d decode_keeps_index [OF d] show ?thesis by (rule conjI)
qed

subsection \<open>C5: the encoder's cache after a delta, luma or literal opcode\<close>

text \<open>
  Claim C5: after a pixel encoded by a delta, luma or literal opcode, the encoder sets
  slot \<open>hash(pixel)\<close> to the pixel and the previous-pixel register to the pixel.

  In the source only the branch for an absent slot writes \<^verbatim>\<open>index\<close>. The one pixel
  (1,1,1) is emitted as the delta byte \<open>7F\<close>, and its slot is still absent afterwards.
\<close>

theorem cache_update_counterexample:
  "map_sum id (\<lambda>s. (m_QOIBytes s, isNull (index s ! unat (hash (RGBValue_rgb 1 1 1)))))
     (encode (RGBValue_rgb 0 0 0)
        ((QOI_Image_new (\<lambda>i. RGBValue_rgb 0 0 0))\<lparr>m_RGBBytes := [RGBValue_rgb 1 1 1]\<rparr>))
   = Inr ([127], True)"
  by code_simp

text \<open>
  C5 as the code has it: when the pixel passes the delta test or the luma test, or its
  slot holds a different pixel (the literal case), the array \<^verbatim>\<open>index\<close> is unchanged
  and \<^verbatim>\<open>prevPixel\<close> becomes the pixel. The opcode emitted is then not an index opcode:
  the tag of its first byte is 01, 10 or 11.
\<close>

theorem encode_pixel_cache_untouched:
  assumes "fits_diff prevPixel p \<or> fits_luma prevPixel p
     \<or> (\<not> isNull (idx ! unat (hash p)) \<and> \<not> rgb_eq (idx ! unat (hash p)) p)"
  shows "snd (encode_pixel idx prevPixel p) = (idx, p)
     \<and> drop_bit 6 (hd (fst (encode_pixel idx prevPixel p))) \<noteq> 0"
proof (cases "fits_diff prevPixel p")
  case True
  then have d: "diff_ok (uint (red p) - uint (red prevPixel))
      (uint (green p) - uint (green prevPixel)) (uint (blue p) - uint (blue prevPixel))"
    by (simp add: fits_diff_def)
  have "drop_bit 6 (hd (fst (encode_pixel idx prevPixel p))) = 1"
    unfolding encode_pixel_diff [OF True]
    by (simp only: fst_conv list.sel diff_byte_tag [OF d])
  with True show ?thesis by (simp add: encode_pixel_diff)
next
  case False
  note nodiff = this
  show ?thesis
  proof (cases "fits_luma prevPixel p")
    case True
    then have l: "luma_ok (uint (red p) - uint (red prevPixel))
        (uint (green p) - uint (green prevPixel)) (uint (blue p) - uint (blue prevPixel))"
      by (simp add: fits_luma_def)
    have "drop_bit 6 (hd (fst (encode_pixel idx prevPixel p))) = 2"
      unfolding encode_pixel_luma [OF nodiff True]
      by (simp only: fst_conv list.sel luma_byte_tag [OF l])
    with nodiff True show ?thesis by (simp add: encode_pixel_luma)
  next
    case False
    have "drop_bit 6 (254 :: u8) \<noteq> 0" by simp
    with False nodiff assms show ?thesis by (simp add: encode_pixel_cache)
  qed
qed

theorem encode_pixel_cache_untouched_witness:
  "encode_pixel (index (QOI_Image_new (\<lambda>i. RGBValue_rgb 0 0 0)))
     (RGBValue_default (RGBValue_rgb 0 0 0)) (RGBValue_rgb 1 1 1)
   = ([127], index (QOI_Image_new (\<lambda>i. RGBValue_rgb 0 0 0)), RGBValue_rgb 1 1 1)"
proof -
  let ?z = "RGBValue_default (RGBValue_rgb 0 0 0)"
  let ?p = "RGBValue_rgb 1 1 1"
  let ?idx = "index (QOI_Image_new (\<lambda>i. RGBValue_rgb 0 0 0))"
  have "fits_diff ?z ?p" by code_simp
  then have h: "fits_diff ?z ?p \<or> fits_luma ?z ?p
     \<or> (\<not> isNull (?idx ! unat (hash ?p)) \<and> \<not> rgb_eq (?idx ! unat (hash ?p)) ?p)"
    by (rule disjI1)
  have b: "fst (encode_pixel ?idx ?z ?p) = [127]" by code_simp
  from b encode_pixel_cache_untouched [OF h] show ?thesis
    by (simp add: prod_eq_iff)
qed

subsection \<open>C6: the decoder's run opcode\<close>

text \<open>
  Claim C6: for a run byte \<open>b\<close> (tag 11, not \<open>0xFE\<close>) the decoder appends the previous
  pixel \<open>payload + 1\<close> times, \<open>payload = b & 0x3F\<close>.

  The source loops \<^verbatim>\<open>for (i = 0; i < run; i++)\<close> with \<^verbatim>\<open>run = curByte & 0b111111\<close>:
  the stream \<open>FE 0A 14 1E C1\<close> decodes to 2 pixels, the literal and one repeat.
\<close>

theorem decode_run_counterexample:
  "map_sum id m_RGBBytes
     (decode ((QOI_Image_new (\<lambda>i. RGBValue_rgb 0 0 0))\<lparr>m_QOIBytes := [254, 10, 20, 30, 193]\<rparr>))
   = Inr [RGBValue_rgb 10 20 30, RGBValue_rgb 10 20 30]
   \<and> drop_bit 6 (193 :: u8) = 3 \<and> (193 :: u8) AND 63 = 1"
  by code_simp

text \<open>
  C6 as the code has it: for a run byte with tag 11, not \<open>0xFE\<close>, read when at least one
  pixel has been produced, the decoder appends the last pixel produced exactly
  \<open>payload\<close> times and goes on with the next byte.
\<close>

theorem decode_run_repeats_payload_times:
  assumes "curIdx < length bytes"
    and "drop_bit 6 (bytes ! curIdx) = 3"
    and "bytes ! curIdx \<noteq> 254"
    and "out \<noteq> []"
  shows "decode_loop bytes idx out curIdx =
     decode_loop bytes idx (out @ replicate (unat (bytes ! curIdx AND 63)) (last out)) (curIdx + 1)"
proof -
  have "decode_step bytes idx out curIdx =
      Inr (out @ replicate (unat (bytes ! curIdx AND 63)) (last out), curIdx + 1)"
    using assms(2,3,4) by (simp add: decode_step_def Let_def run_fill_replicate)
  with assms(1) show ?thesis
    by (subst decode_loop.simps) simp
qed

theorem decode_run_repeats_payload_times_witness:
  "decode_loop [254, 10, 20, 30, 195] (index (QOI_Image_new (\<lambda>i. RGBValue_rgb 0 0 0)))
     [RGBValue_rgb 10 20 30] 4
   = Inr [RGBValue_rgb 10 20 30, RGBValue_rgb 10 20 30, RGBValue_rgb 10 20 30,
          RGBValue_rgb 10 20 30]"
proof -
  let ?bs = "[254, 10, 20, 30, 195 :: u8]"
  let ?p = "RGBValue_rgb 10 20 30"
  let ?idx = "index (QOI_Image_new (\<lambda>i. RGBValue_rgb 0 0 0))"
  have h1: "4 < length ?bs" by simp
  have h2: "drop_bit 6 (?bs ! 4) = 3" by code_simp
  have h3: "?bs ! 4 \<noteq> 254" by simp
  have h4: "[?p] \<noteq> []" by simp
  note t = decode_run_repeats_payload_times [of 4 ?bs "[?p]" ?idx, OF h1 h2 h3 h4]
  have r: "decode_loop ?bs ?idx ([?p] @ replicate (unat (?bs ! 4 AND 63)) (last [?p])) (4 + 1)
     = Inr [?p, ?p, ?p, ?p]"
    by code_simp
  from t r show ?thesis by (simp only:)
qed

subsection \<open>C7: the previous pixel at the start of a pass\<close>

text \<open>
  Claim C7: at the start of every encode and decode pass the previous-pixel register is
  (0,0,0), and a first delta, luma or run opcode is relative to (0,0,0).

  The encoder declares \<^verbatim>\<open>RGBValue prevPixel;\<close>, whose constructor assigns no channel:
  the first pixel (10,10,10) is emitted as the delta byte \<open>7F\<close> when the memory held
  (9,9,9) and as the luma bytes \<open>AA 88\<close> when it held (0,0,0). The decoder has no
  register: it takes \<^verbatim>\<open>m_RGBBytes.back()\<close>, and for the stream \<open>7F\<close> the vector is
  empty.
\<close>

theorem first_pixel_depends_on_memory:
  "map_sum id m_QOIBytes
     (encode (RGBValue_rgb 9 9 9)
        ((QOI_Image_new (\<lambda>i. RGBValue_rgb 0 0 0))\<lparr>m_RGBBytes := [RGBValue_rgb 10 10 10]\<rparr>))
   = Inr [127]
   \<and> map_sum id m_QOIBytes
       (encode (RGBValue_rgb 0 0 0)
          ((QOI_Image_new (\<lambda>i. RGBValue_rgb 0 0 0))\<lparr>m_RGBBytes := [RGBValue_rgb 10 10 10]\<rparr>))
     = Inr [170, 136]
   \<and> decode ((QOI_Image_new (\<lambda>i. RGBValue_rgb 0 0 0))\<lparr>m_QOIBytes := [127]\<rparr>)
     = Inl BackOfEmpty"
  by code_simp

subsection \<open>C8: a stream that ends in the first byte of a luma opcode\<close>

text \<open>
  Claim C8: a byte sequence whose final byte is a luma opcode (tag 10) with no second
  byte decodes to the typed error TruncatedStream, with no read out of bounds.

  The source has no such test: for the stream \<open>FE 01 02 03 80\<close> the luma branch reads
  \<^verbatim>\<open>m_QOIBytes[5]\<close> of a vector of size 5.
\<close>

theorem decode_luma_final_byte_reads_past_end:
  "decode ((QOI_Image_new (\<lambda>i. RGBValue_rgb 0 0 0))\<lparr>m_QOIBytes := [254, 1, 2, 3, 128]\<rparr>)
     = Inl ReadPastEnd"
  by code_simp

subsection \<open>C9: the flat image\<close>

text \<open>
  Claim C9: the 4 pixels (10,20,30) encode to exactly one run opcode byte with tag 11
  and payload 3, and decode back to the 4 pixels.

  On this image the source reads past the end of the pixel vector, whatever the memory
  of \<^verbatim>\<open>prevPixel\<close> and of the array \<^verbatim>\<open>index\<close> held: the first pixel is emitted by
  steps 2 to 4 and becomes \<^verbatim>\<open>prevPixel\<close>, the scan counts the 3 repeats, and its loop
  condition then reads \<^verbatim>\<open>m_RGBBytes[4]\<close> of a vector of size 4.
\<close>

theorem flat_image_reads_past_end:
  "encode mem
     ((QOI_Image_new cache_mem)
        \<lparr>m_RGBBytes := [RGBValue_rgb 10 20 30, RGBValue_rgb 10 20 30, RGBValue_rgb 10 20 30,
                        RGBValue_rgb 10 20 30]\<rparr>)
   = Inl ReadPastEnd"
proof -
  let ?p = "RGBValue_rgb 10 20 30"
  let ?px = "[?p, ?p, ?p, ?p]"
  let ?z = "RGBValue_default mem"
  let ?idx0 = "index (QOI_Image_new cache_mem)"
  obtain bs idx' where ep: "encode_pixel ?idx0 ?z ?p = (bs, idx', ?p)"
    using encode_pixel_prev [of ?idx0 ?z ?p] by (cases "encode_pixel ?idx0 ?z ?p") auto
  have "encode_loop ?px ?idx0 [] ?z 0 =
      (case encode_pixel ?idx0 ?z (?px ! 0) of
         (bs, idx', prevPixel') \<Rightarrow> encode_loop ?px idx' ([] @ bs) prevPixel' (0 + 1))"
    by (rule encode_loop_no_run) simp_all
  then have s0: "encode_loop ?px ?idx0 [] ?z 0 = encode_loop ?px idx' bs ?p 1"
    by (simp add: ep)
  have scan: "run_scan ?px ?p 0 1 = Inl ReadPastEnd"
  proof (rule run_scan_to_end)
    show "3 = length ?px - 1" by simp
    show "1 < length ?px" by simp
    show "unat (0 :: u8) + 3 < 62" by simp
    show "\<forall>k. 1 < k \<and> k < length ?px \<longrightarrow> rgb_eq (?px ! k) ?p"
    proof (intro allI impI)
      fix k :: nat
      assume "1 < k \<and> k < length ?px"
      then have "k = 2 \<or> k = 3" by auto
      then show "rgb_eq (?px ! k) ?p" by (auto simp: rgb_eq_def)
    qed
  qed
  have same: "rgb_eq (?px ! 1) ?p" by (simp add: rgb_eq_def)
  have s1: "encode_loop ?px idx' bs ?p 1 = Inl ReadPastEnd"
    using scan same by (subst encode_loop.simps) simp
  have fields: "m_QOIBytes (QOI_Image_new cache_mem) = []"
    by (simp add: QOI_Image_new_def)
  from s0 s1 have enc: "encode_loop ?px ?idx0 [] ?z 0 = Inl ReadPastEnd"
    by (simp only:)
  show ?thesis
    by (simp add: encode_def fields enc)
qed

subsection \<open>C10: the bounds of the run scan\<close>

text \<open>
  Claim C10: the run scan reads only pixel indices below the size of the vector; when a
  run extends to the last pixel, the loop condition does not index position
  \<open>len(pixels)\<close>.

  In the source the condition \<^verbatim>\<open>m_RGBBytes[curIdx] == prevPixel\<close> has no test against
  the size: whenever all pixels from \<^verbatim>\<open>curIdx\<close> to the end equal \<^verbatim>\<open>prevPixel\<close> and
  there are fewer than 62 of them, the scan reads position \<open>len(pixels)\<close>.
\<close>

theorem run_to_last_pixel_reads_past_end:
  assumes "0 < curIdx" and "curIdx < length pixels" and "length pixels - curIdx < 62"
    and "\<forall>k. curIdx \<le> k \<and> k < length pixels \<longrightarrow> rgb_eq (pixels ! k) prevPixel"
  shows "encode_loop pixels idx out prevPixel curIdx = Inl ReadPastEnd"
proof -
  have "run_scan pixels prevPixel 0 curIdx = Inl ReadPastEnd"
  proof (rule run_scan_to_end)
    show "length pixels - curIdx = length pixels - curIdx" by (rule refl)
    show "curIdx < length pixels" by (rule assms(2))
    show "unat (0 :: u8) + (length pixels - curIdx) < 62" using assms(3) by simp
    show "\<forall>k. curIdx < k \<and> k < length pixels \<longrightarrow> rgb_eq (pixels ! k) prevPixel"
      using assms(4) by simp
  qed
  moreover from assms(2,4) have "rgb_eq (pixels ! curIdx) prevPixel" by simp
  ultimately show ?thesis
    using assms(1,2) by (subst encode_loop.simps) simp
qed

theorem run_to_last_pixel_reads_past_end_witness:
  "encode_loop [RGBValue_rgb 10 20 30, RGBValue_rgb 10 20 30]
     ((index (QOI_Image_new (\<lambda>i. RGBValue_rgb 0 0 0)))[20 := RGBValue_rgb 10 20 30])
     [20] (RGBValue_rgb 10 20 30) 1
   = Inl ReadPastEnd
   \<and> encode (RGBValue_rgb 0 0 0)
       ((QOI_Image_new (\<lambda>i. RGBValue_rgb 0 0 0))
          \<lparr>m_RGBBytes := [RGBValue_rgb 10 20 30, RGBValue_rgb 10 20 30]\<rparr>)
     = Inl ReadPastEnd"
proof -
  let ?p = "RGBValue_rgb 10 20 30"
  let ?idx = "(index (QOI_Image_new (\<lambda>i. RGBValue_rgb 0 0 0)))[20 := ?p]"
  have h1: "0 < (1 :: nat)" by simp
  have h2: "1 < length [?p, ?p]" by simp
  have h3: "length [?p, ?p] - 1 < 62" by simp
  have h4: "\<forall>k. 1 \<le> k \<and> k < length [?p, ?p] \<longrightarrow> rgb_eq ([?p, ?p] ! k) ?p"
  proof (intro allI impI)
    fix k :: nat
    assume "1 \<le> k \<and> k < length [?p, ?p]"
    then have "k = 1" by simp
    then show "rgb_eq ([?p, ?p] ! k) ?p" by (simp add: rgb_eq_def)
  qed
  note t = run_to_last_pixel_reads_past_end [of 1 "[?p, ?p]" ?p ?idx "[20]", OF h1 h2 h3 h4]
  have e: "encode (RGBValue_rgb 0 0 0)
       ((QOI_Image_new (\<lambda>i. RGBValue_rgb 0 0 0))\<lparr>m_RGBBytes := [?p, ?p]\<rparr>)
     = Inl ReadPastEnd"
    by code_simp
  from t e show ?thesis by (rule conjI)
qed

end
